theory Spec2Isabelle
  imports Main
begin

section \<open>The lazily resolved operator-kind handle of \<^verbatim>\<open>csrc/ops/ltc_ops.h\<close>\<close>

text \<open>
  The header declares one class, \<^verbatim>\<open>OpKindWrapper\<close>:
  \<^verbatim>\<open>
  class OpKindWrapper {
   public:
    OpKindWrapper(const char* name) : name_(name) {}
    const torch::lazy::OpKind& operator*() const { return get(); }
    operator torch::lazy::OpKind() const { return get(); }
   private:
    const torch::lazy::OpKind& get() const {
      std::call_once(once_,
                     [this]() { op_kind_ = torch::lazy::OpKind::Get(name_); });
      return op_kind_;
    }
    const char* name_;
    mutable torch::lazy::OpKind op_kind_;
    mutable std::once_flag once_;
  };
  \<close>
  The embedding below is sequential: a call of an accessor is one step that takes the
  handle and the rest of the program state and returns the outcome of the call together
  with both, updated. An exception is the \<open>Inl\<close> branch of the outcome.
\<close>

subsection \<open>Program state\<close>

text \<open>
  \<^verbatim>\<open>const char*\<close> is an address. The handle keeps the address, and the characters
  are read from memory when \<^verbatim>\<open>OpKind::Get(name_)\<close> converts the pointer into its
  \<^verbatim>\<open>std::string\<close> argument. The memory gives the C string found at each address; a
  pointer whose target is no longer a string is undefined behaviour in C++ and lies
  outside the model.
\<close>

type_synonym addr = nat

text \<open>
  What a call does besides returning is recorded in a trace, oldest event first: every
  invocation of \<^verbatim>\<open>OpKind::Get\<close> with its argument, and every assignment to
  \<^verbatim>\<open>op_kind_\<close> with the value assigned.
\<close>

datatype 'k event = Lookup string | Assign 'k

record ('r, 'k) world =
  mem :: "addr \<Rightarrow> string"
  registry :: 'r
  trace :: "'k event list"

text \<open>
  \<^verbatim>\<open>std::once_flag\<close>: either no returning execution of \<^verbatim>\<open>call_once\<close> has happened
  on it yet, or one has.
\<close>

datatype once_flag = Fresh | Done

text \<open>
  The three data members. An Isabelle name cannot end in an underscore, so \<^verbatim>\<open>name_\<close>,
  \<^verbatim>\<open>op_kind_\<close> and \<^verbatim>\<open>once_\<close> carry the suffix \<open>fld\<close>.
\<close>

record 'k OpKindWrapper =
  name_fld :: addr
  op_kind_fld :: 'k
  once_fld :: once_flag

text \<open>
  \<^verbatim>\<open>torch::lazy::OpKind::Get\<close> comes with the include of
  \<^verbatim>\<open>torch/csrc/lazy/ts_backend/ts_node.h\<close> and is not defined in this header. It is a
  parameter of the model: a function from the state of the registry and a name to either
  a failure or an operator kind, and the next state of the registry. The types of registry
  states \<open>'r\<close>, failures \<open>'e\<close> and operator kinds \<open>'k\<close> are left open.
\<close>

type_synonym ('r, 'e, 'k) lookup = "'r \<Rightarrow> string \<Rightarrow> ('e + 'k) \<times> 'r"

definition OpKind_Get ::
  "('r, 'e, 'k) lookup \<Rightarrow> string \<Rightarrow> ('r, 'k) world \<Rightarrow> ('e + 'k) \<times> ('r, 'k) world" where
  "OpKind_Get G s w =
     (case G (registry w) s of
        (res, r') \<Rightarrow> (res, w\<lparr>registry := r', trace := trace w @ [Lookup s]\<rparr>))"

subsection \<open>The class\<close>

text \<open>
  The constructor initialises \<^verbatim>\<open>name_\<close> with the pointer it is given and has an empty
  body; \<^verbatim>\<open>op_kind_\<close> and \<^verbatim>\<open>once_\<close> are default-constructed. The default
  \<^verbatim>\<open>OpKind\<close> is the parameter \<open>k0\<close>.
\<close>

definition OpKindWrapper_init :: "'k \<Rightarrow> addr \<Rightarrow> 'k OpKindWrapper" where
  "OpKindWrapper_init k0 name = \<lparr>name_fld = name, op_kind_fld = k0, once_fld = Fresh\<rparr>"

text \<open>The constructor as a step of the program: it returns the new object and the state.\<close>

definition construct ::
  "'k \<Rightarrow> addr \<Rightarrow> ('r, 'k) world \<Rightarrow> 'k OpKindWrapper \<times> ('r, 'k) world" where
  "construct k0 name w = (OpKindWrapper_init k0 name, w)"

text \<open>
  The lambda \<^verbatim>\<open>[this]() { op_kind_ = torch::lazy::OpKind::Get(name_); }\<close>. The
  right-hand side is evaluated first; when it throws, the assignment does not happen.
\<close>

definition resolve_body ::
  "('r, 'e, 'k) lookup \<Rightarrow> 'k OpKindWrapper \<times> ('r, 'k) world
     \<Rightarrow> ('e + unit) \<times> 'k OpKindWrapper \<times> ('r, 'k) world" where
  "resolve_body G = (\<lambda>(h, w).
     (case OpKind_Get G (mem w (name_fld h)) w of
        (Inl e, w') \<Rightarrow> (Inl e, h, w')
      | (Inr k, w') \<Rightarrow>
          (Inr (), h\<lparr>op_kind_fld := k\<rparr>, w'\<lparr>trace := trace w' @ [Assign k]\<rparr>)))"

text \<open>
  \<^verbatim>\<open>std::call_once(once_, f)\<close>, as the C++ standard defines it for calls that follow one
  another: on a flag that already had a returning execution the call is passive and \<open>f\<close>
  is not called; otherwise \<open>f\<close> is called; when \<open>f\<close> throws, the exception goes to the
  caller and the flag stays as it was; when \<open>f\<close> returns, the flag is set.
\<close>

definition call_once ::
  "('k OpKindWrapper \<times> 'w \<Rightarrow> ('e + unit) \<times> 'k OpKindWrapper \<times> 'w)
     \<Rightarrow> 'k OpKindWrapper \<times> 'w \<Rightarrow> ('e + unit) \<times> 'k OpKindWrapper \<times> 'w" where
  "call_once f = (\<lambda>(h, w).
     (case once_fld h of
        Done \<Rightarrow> (Inr (), h, w)
      | Fresh \<Rightarrow>
          (case f (h, w) of
             (Inl e, h', w') \<Rightarrow> (Inl e, h', w')
           | (Inr u, h', w') \<Rightarrow> (Inr u, h'\<lparr>once_fld := Done\<rparr>, w'))))"

definition get ::
  "('r, 'e, 'k) lookup \<Rightarrow> 'k OpKindWrapper \<Rightarrow> ('r, 'k) world
     \<Rightarrow> ('e + 'k) \<times> 'k OpKindWrapper \<times> ('r, 'k) world" where
  "get G h w =
     (case call_once (resolve_body G) (h, w) of
        (Inl e, h', w') \<Rightarrow> (Inl e, h', w')
      | (Inr u, h', w') \<Rightarrow> (Inr (op_kind_fld h'), h', w'))"

text \<open>\<^verbatim>\<open>operator*\<close> and \<^verbatim>\<open>operator torch::lazy::OpKind\<close>.\<close>

definition operator_star ::
  "('r, 'e, 'k) lookup \<Rightarrow> 'k OpKindWrapper \<Rightarrow> ('r, 'k) world
     \<Rightarrow> ('e + 'k) \<times> 'k OpKindWrapper \<times> ('r, 'k) world" where
  "operator_star G h w = get G h w"

definition operator_OpKind ::
  "('r, 'e, 'k) lookup \<Rightarrow> 'k OpKindWrapper \<Rightarrow> ('r, 'k) world
     \<Rightarrow> ('e + 'k) \<times> 'k OpKindWrapper \<times> ('r, 'k) world" where
  "operator_OpKind G h w = get G h w"

subsection \<open>Sequences of calls on one handle\<close>

text \<open>
  A client of a handle calls its two public accessors in any order. Between two calls the
  rest of the program may run: \<open>Env m r\<close> stands for it and leaves the memory as \<open>m\<close>
  and the registry as \<open>r\<close>. The handle's fields are private, so nothing else touches them.
\<close>

datatype 'r action = Star | Conv | Env "addr \<Rightarrow> string" 'r

fun run ::
  "('r, 'e, 'k) lookup \<Rightarrow> 'r action list \<Rightarrow> 'k OpKindWrapper \<Rightarrow> ('r, 'k) world
     \<Rightarrow> ('e + 'k) list \<times> 'k OpKindWrapper \<times> ('r, 'k) world" where
  "run G [] h w = ([], h, w)"
| "run G (Star # as) h w =
     (case operator_star G h w of
        (x, h', w') \<Rightarrow> (case run G as h' w' of (xs, h'', w'') \<Rightarrow> (x # xs, h'', w'')))"
| "run G (Conv # as) h w =
     (case operator_OpKind G h w of
        (x, h', w') \<Rightarrow> (case run G as h' w' of (xs, h'', w'') \<Rightarrow> (x # xs, h'', w'')))"
| "run G (Env m r # as) h w = run G as h (w\<lparr>mem := m, registry := r\<rparr>)"

text \<open>The values returned and the failures thrown by a sequence of calls.\<close>

definition returned :: "('e + 'k) list \<Rightarrow> 'k list" where
  "returned xs = [k. Inr k \<leftarrow> xs]"

definition thrown :: "('e + 'k) list \<Rightarrow> 'e list" where
  "thrown xs = [e. Inl e \<leftarrow> xs]"

text \<open>The arguments of the lookups and the values of the assignments in a trace.\<close>

definition lookups :: "'k event list \<Rightarrow> string list" where
  "lookups t = [s. Lookup s \<leftarrow> t]"

definition assigns :: "'k event list \<Rightarrow> 'k list" where
  "assigns t = [k. Assign k \<leftarrow> t]"

definition is_call :: "'r action \<Rightarrow> bool" where
  "is_call a = (case a of Star \<Rightarrow> True | Conv \<Rightarrow> True | Env m r \<Rightarrow> False)"

text \<open>Exchanging the two accessors.\<close>

definition swap_accessor :: "'r action \<Rightarrow> 'r action" where
  "swap_accessor a = (case a of Star \<Rightarrow> Conv | Conv \<Rightarrow> Star | Env m r \<Rightarrow> Env m r)"

subsection \<open>Two handles on one registry\<close>

text \<open>
  Two handles share the memory and the registry. A step is a call of an accessor of the
  first or of the second handle, a lookup of some name made by another client of the
  registry, or a change of the memory by the rest of the program. The registry changes by
  lookups only. The outcomes of the calls are collected for each handle apart.
\<close>

datatype step2 = Star1 | Conv1 | Star2 | Conv2 | Other string | Store "addr \<Rightarrow> string"

fun run2 ::
  "('r, 'e, 'k) lookup \<Rightarrow> step2 list \<Rightarrow> 'k OpKindWrapper \<Rightarrow> 'k OpKindWrapper
     \<Rightarrow> ('r, 'k) world
     \<Rightarrow> ('e + 'k) list \<times> ('e + 'k) list \<times> 'k OpKindWrapper \<times> 'k OpKindWrapper
        \<times> ('r, 'k) world" where
  "run2 G [] ha hb w = ([], [], ha, hb, w)"
| "run2 G (Star1 # ss) ha hb w =
     (case operator_star G ha w of
        (x, ha', w') \<Rightarrow>
          (case run2 G ss ha' hb w' of
             (xs, ys, ha'', hb'', w'') \<Rightarrow> (x # xs, ys, ha'', hb'', w'')))"
| "run2 G (Conv1 # ss) ha hb w =
     (case operator_OpKind G ha w of
        (x, ha', w') \<Rightarrow>
          (case run2 G ss ha' hb w' of
             (xs, ys, ha'', hb'', w'') \<Rightarrow> (x # xs, ys, ha'', hb'', w'')))"
| "run2 G (Star2 # ss) ha hb w =
     (case operator_star G hb w of
        (y, hb', w') \<Rightarrow>
          (case run2 G ss ha hb' w' of
             (xs, ys, ha'', hb'', w'') \<Rightarrow> (xs, y # ys, ha'', hb'', w'')))"
| "run2 G (Conv2 # ss) ha hb w =
     (case operator_OpKind G hb w of
        (y, hb', w') \<Rightarrow>
          (case run2 G ss ha hb' w' of
             (xs, ys, ha'', hb'', w'') \<Rightarrow> (xs, y # ys, ha'', hb'', w'')))"
| "run2 G (Other s # ss) ha hb w =
     (case OpKind_Get G s w of (z, w') \<Rightarrow> run2 G ss ha hb w')"
| "run2 G (Store m # ss) ha hb w = run2 G ss ha hb (w\<lparr>mem := m\<rparr>)"

text \<open>
  The history of a registry: the names looked up one after the other from a given state,
  each with the outcome of its lookup, and the state the registry is in at the end.
\<close>

fun replay :: "('r, 'e, 'k) lookup \<Rightarrow> 'r \<Rightarrow> string list \<Rightarrow> (string \<times> ('e + 'k)) list" where
  "replay G r [] = []"
| "replay G r (n # ns) = (case G r n of (x, r') \<Rightarrow> (n, x) # replay G r' ns)"

fun final_registry :: "('r, 'e, 'k) lookup \<Rightarrow> 'r \<Rightarrow> string list \<Rightarrow> 'r" where
  "final_registry G r [] = r"
| "final_registry G r (n # ns) = final_registry G (snd (G r n)) ns"

text \<open>
  A value comes from a lookup in a history when the handle had it cached beforehand or
  the lookup of the name the handle points to returned it somewhere in that history.
\<close>

definition from_lookup ::
  "('r, 'e, 'k) lookup \<Rightarrow> 'k OpKindWrapper \<Rightarrow> ('r, 'k) world \<Rightarrow> string list \<Rightarrow> 'k \<Rightarrow> bool" where
  "from_lookup G h w ns v \<longleftrightarrow>
     (once_fld h = Done \<and> v = op_kind_fld h)
     \<or> (mem w (name_fld h), Inr v) \<in> set (replay G (registry w) ns)"

subsection \<open>A registry to run the model on\<close>

text \<open>
  Modelled from the spec: the registry behind \<^verbatim>\<open>torch::lazy::OpKind::Get\<close> is not part of
  this header. The spec describes it as "lookup-or-register operator kind by qualified
  name", idempotent, failing on an "unknown/malformed name" or when the "registry [is] not
  yet initialized". This instance keeps the list of the names registered so far, and the
  kind of a name is the interned name itself. It only serves to evaluate the model on
  concrete inputs: every general theorem below holds for any lookup function.
\<close>

datatype lookup_failure = Not_initialized | Malformed_name

datatype sample_registry = Uninit | Ready "string list"

fun sample_Get :: "(sample_registry, lookup_failure, string) lookup" where
  "sample_Get Uninit s = (Inl Not_initialized, Uninit)"
| "sample_Get (Ready ns) s =
     (if s = [] then (Inl Malformed_name, Ready ns)
      else if s \<in> set ns then (Inr s, Ready ns)
      else (Inr s, Ready (ns @ [s])))"

definition sample_mem :: "addr \<Rightarrow> string" where
  "sample_mem a =
     (if a = 0 then ''lazy_tensors::select''
      else if a = 1 then ''lazy_tensors::cast''
      else [])"

definition sample_world :: "sample_registry \<Rightarrow> (sample_registry, string) world" where
  "sample_world r = \<lparr>mem = sample_mem, registry = r, trace = []\<rparr>"

text \<open>
  A sample client: a dereference while the registry is not initialised, then the registry
  is initialised, then a conversion and another dereference.
\<close>

definition sample_client :: "sample_registry action list" where
  "sample_client = [Star, Env sample_mem (Ready []), Conv, Star]"

text \<open>
  Modelled from the spec: a second instance of the registry that is not part of this
  header, again "lookup-or-register operator kind by qualified name". It interns names
  the way a symbol table does: the registry is the list of the names registered so far
  and the kind of a name is its index in the list, so the kind a name gets depends on
  what was registered before it.
\<close>

fun position :: "string \<Rightarrow> string list \<Rightarrow> nat option" where
  "position s [] = None"
| "position s (n # ns) =
     (if s = n then Some 0
      else (case position s ns of None \<Rightarrow> None | Some i \<Rightarrow> Some (Suc i)))"

definition intern_Get :: "(string list, lookup_failure, nat) lookup" where
  "intern_Get ns s =
     (if s = [] then (Inl Malformed_name, ns)
      else (case position s ns of
              Some i \<Rightarrow> (Inr i, ns)
            | None \<Rightarrow> (Inr (length ns), ns @ [s])))"

text \<open>
  Two clients of this registry, one handle each, with a lookup by a third party and a
  rewrite of the memory in between.
\<close>

definition intern_world :: "(string list, nat) world" where
  "intern_world = \<lparr>mem = sample_mem, registry = [], trace = []\<rparr>"

definition two_clients :: "step2 list" where
  "two_clients = [Star1, Conv2, Other ''lazy_tensors::nms'', Store sample_mem, Conv1, Star2]"

section \<open>One call\<close>

lemma get_Done:
  "once_fld h = Done \<Longrightarrow> get G h w = (Inr (op_kind_fld h), h, w)"
  by (simp add: get_def call_once_def)

lemma get_Fresh_throws:
  assumes "once_fld h = Fresh" and "G (registry w) (mem w (name_fld h)) = (Inl e, r')"
  shows "get G h w =
    (Inl e, h, w\<lparr>registry := r', trace := trace w @ [Lookup (mem w (name_fld h))]\<rparr>)"
  using assms by (simp add: get_def call_once_def resolve_body_def OpKind_Get_def)

lemma get_Fresh_returns:
  assumes "once_fld h = Fresh" and "G (registry w) (mem w (name_fld h)) = (Inr k, r')"
  shows "get G h w =
    (Inr k, h\<lparr>op_kind_fld := k, once_fld := Done\<rparr>,
     w\<lparr>registry := r', trace := trace w @ [Lookup (mem w (name_fld h)), Assign k]\<rparr>)"
  using assms by (simp add: get_def call_once_def resolve_body_def OpKind_Get_def)

text \<open>The three ways a call of \<open>get\<close> can go.\<close>

lemma get_cases:
  obtains
    (flag_set) "once_fld h = Done" and "get G h w = (Inr (op_kind_fld h), h, w)"
  | (lookup_throws) e r' where "once_fld h = Fresh"
      and "G (registry w) (mem w (name_fld h)) = (Inl e, r')"
      and "get G h w =
        (Inl e, h, w\<lparr>registry := r', trace := trace w @ [Lookup (mem w (name_fld h))]\<rparr>)"
  | (lookup_returns) k r' where "once_fld h = Fresh"
      and "G (registry w) (mem w (name_fld h)) = (Inr k, r')"
      and "get G h w =
        (Inr k, h\<lparr>op_kind_fld := k, once_fld := Done\<rparr>,
         w\<lparr>registry := r', trace := trace w @ [Lookup (mem w (name_fld h)), Assign k]\<rparr>)"
proof (cases "once_fld h")
  case Done
  then show ?thesis by (rule flag_set) (rule get_Done[OF Done])
next
  case Fresh
  obtain x r' where g: "G (registry w) (mem w (name_fld h)) = (x, r')"
    by (cases "G (registry w) (mem w (name_fld h))")
  show ?thesis
  proof (cases x)
    case (Inl e)
    with g have g': "G (registry w) (mem w (name_fld h)) = (Inl e, r')" by simp
    show ?thesis
      by (rule lookup_throws[OF Fresh g' get_Fresh_throws[where G=G and h=h and w=w, OF Fresh g']])
  next
    case (Inr k)
    with g have g': "G (registry w) (mem w (name_fld h)) = (Inr k, r')" by simp
    show ?thesis
      by (rule lookup_returns[OF Fresh g' get_Fresh_returns[where G=G and h=h and w=w, OF Fresh g']])
  qed
qed

lemma get_lookup_outcome:
  "once_fld h = Fresh \<Longrightarrow> fst (get G h w) = fst (G (registry w) (mem w (name_fld h)))"
  by (cases rule: get_cases[of h G w]) simp_all

lemma get_Fresh_lookups:
  "once_fld h = Fresh \<Longrightarrow>
     lookups (trace (snd (snd (get G h w)))) = lookups (trace w) @ [mem w (name_fld h)]"
  by (cases rule: get_cases[of h G w]) (simp_all add: lookups_def)

lemma get_throws_unchanged:
  assumes "get G h w = (Inl e, h', w')"
  shows "h' = h \<and> once_fld h = Fresh"
  using assms by (cases rule: get_cases[of h G w]) simp_all

section \<open>Sequences of calls\<close>

lemma returned_simps [simp]:
  "returned [] = []"
  "returned (Inr k # xs) = k # returned xs"
  "returned (Inl e # xs) = returned xs"
  by (simp_all add: returned_def)

lemma thrown_simps [simp]:
  "thrown [] = []"
  "thrown (Inr k # xs) = thrown xs"
  "thrown (Inl e # xs) = e # thrown xs"
  by (simp_all add: thrown_def)

lemma lookups_simps [simp]:
  "lookups [] = []"
  "lookups (t @ u) = lookups t @ lookups u"
  "lookups (Lookup s # t) = s # lookups t"
  "lookups (Assign k # t) = lookups t"
  by (simp_all add: lookups_def)

lemma assigns_simps [simp]:
  "assigns [] = []"
  "assigns (t @ u) = assigns t @ assigns u"
  "assigns (Lookup s # t) = assigns t"
  "assigns (Assign k # t) = k # assigns t"
  by (simp_all add: assigns_def)

lemma run_call:
  assumes "a = Star \<or> a = Conv"
  shows "run G (a # as) h w =
     (case get G h w of
        (x, h', w') \<Rightarrow> (case run G as h' w' of (xs, h'', w'') \<Rightarrow> (x # xs, h'', w'')))"
  using assms by (auto simp: operator_star_def operator_OpKind_def)

lemma is_call_iff: "is_call a \<longleftrightarrow> a = Star \<or> a = Conv"
  by (cases a) (simp_all add: is_call_def)

text \<open>What a sequence of calls does to the handle and to the trace.\<close>

lemma run_inv:
  "run G as h w = (xs, h', w') \<Longrightarrow>
     name_fld h' = name_fld h
   \<and> set (returned xs) \<subseteq> {op_kind_fld h'}
   \<and> (once_fld h' = Done \<longleftrightarrow> once_fld h = Done \<or> returned xs \<noteq> [])
   \<and> (\<exists>ss. lookups (trace w') = lookups (trace w) @ ss \<and>
          length ss = length (thrown xs)
            + (if once_fld h = Fresh \<and> returned xs \<noteq> [] then 1 else 0))
   \<and> assigns (trace w') = assigns (trace w)
           @ (if once_fld h = Fresh \<and> returned xs \<noteq> [] then [op_kind_fld h'] else [])
   \<and> (once_fld h = Done \<or> returned xs = [] \<longrightarrow> h' = h)
   \<and> (once_fld h = Done \<longrightarrow> thrown xs = [])
   \<and> length xs = length (filter is_call as)"
proof (induction as arbitrary: h w xs h' w')
  case Nil
  then show ?case by simp
next
  case (Cons a as)
  show ?case
  proof (cases "a = Star \<or> a = Conv")
    case False
    then obtain m r where a: "a = Env m r" by (cases a) auto
    from Cons.prems a have "run G as h (w\<lparr>mem := m, registry := r\<rparr>) = (xs, h', w')" by simp
    from Cons.IH[OF this] a show ?thesis by (simp add: is_call_def)
  next
    case True
    then have c: "is_call a" by (simp add: is_call_iff)
    obtain x h1 w1 where g: "get G h w = (x, h1, w1)" by (cases "get G h w")
    obtain ys h2 w2 where r: "run G as h1 w1 = (ys, h2, w2)" by (cases "run G as h1 w1")
    from Cons.prems True g r have eq: "xs = x # ys" "h' = h2" "w' = w2"
      by (simp_all add: run_call)
    note IH = Cons.IH[OF r]
    show ?thesis
    proof (cases rule: get_cases[of h G w])
      case flag_set
      with g have "x = Inr (op_kind_fld h)" "h1 = h" "w1 = w" by auto
      with IH eq c flag_set show ?thesis by auto
    next
      case (lookup_throws e r')
      with g have "x = Inl e" "h1 = h"
        "lookups (trace w1) = lookups (trace w) @ [mem w (name_fld h)]"
        "assigns (trace w1) = assigns (trace w)" by auto
      with IH eq c lookup_throws(1) show ?thesis by auto
    next
      case (lookup_returns k r')
      with g have "x = Inr k" "h1 = h\<lparr>op_kind_fld := k, once_fld := Done\<rparr>"
        "lookups (trace w1) = lookups (trace w) @ [mem w (name_fld h)]"
        "assigns (trace w1) = assigns (trace w) @ [k]" by auto
      with IH eq c lookup_returns(1) show ?thesis by auto
    qed
  qed
qed

lemma run_name: "name_fld (fst (snd (run G as h w))) = name_fld h"
proof -
  obtain xs h' w' where r: "run G as h w = (xs, h', w')" by (cases "run G as h w")
  from run_inv[OF r] r show ?thesis by simp
qed

text \<open>Without a call of an accessor the handle and the trace stay as they are.\<close>

lemma run_no_call:
  "\<forall>a \<in> set as. \<not> is_call a \<Longrightarrow> run G as h w = (xs, h', w') \<Longrightarrow>
     xs = [] \<and> h' = h \<and> trace w' = trace w"
proof (induction as arbitrary: w)
  case Nil
  then show ?case by simp
next
  case (Cons a as)
  then obtain m r where a: "a = Env m r" by (cases a) (auto simp: is_call_def)
  with Cons.prems have "run G as h (w\<lparr>mem := m, registry := r\<rparr>) = (xs, h', w')"
    and "\<forall>a \<in> set as. \<not> is_call a" by simp_all
  from Cons.IH[OF this(2) this(1)] show ?case by simp
qed

text \<open>The two accessors are interchangeable in any sequence.\<close>

lemma run_swap_accessor: "run G (map swap_accessor as) h w = run G as h w"
proof (induction as arbitrary: h w)
  case Nil
  show ?case by simp
next
  case (Cons a as)
  show ?case
  proof (cases a)
    case Star
    with Cons show ?thesis by (simp add: swap_accessor_def operator_star_def operator_OpKind_def)
  next
    case Conv
    with Cons show ?thesis by (simp add: swap_accessor_def operator_star_def operator_OpKind_def)
  next
    case (Env m r)
    with Cons show ?thesis by (simp add: swap_accessor_def)
  qed
qed

section \<open>Two handles on one registry\<close>

text \<open>
  One call of \<open>get\<close> adds at most one lookup to the history, and what came from a lookup
  in the history after the call comes from a lookup in the history from before it.
\<close>

lemma get_lifts:
  assumes "get G h w = (x, h1, w1)"
  obtains l where "mem w1 = mem w" and "name_fld h1 = name_fld h"
    and "\<And>ns v. from_lookup G h1 w1 ns v \<Longrightarrow> from_lookup G h w (l @ ns) v"
    and "\<And>ns v. x = Inr v \<Longrightarrow> from_lookup G h w (l @ ns) v"
    and "\<And>h' ns v. from_lookup G h' w1 ns v \<Longrightarrow> from_lookup G h' w (l @ ns) v"
proof (cases rule: get_cases[of h G w])
  case flag_set
  with assms have e: "x = Inr (op_kind_fld h)" "h1 = h" "w1 = w" by auto
  show ?thesis
    by (rule that[of "[]"]) (use e flag_set(1) in \<open>auto simp: from_lookup_def\<close>)
next
  case (lookup_throws e r')
  with assms have e: "x = Inl e" "h1 = h" "mem w1 = mem w" "registry w1 = r'" by auto
  show ?thesis
    by (rule that[of "[mem w (name_fld h)]"])
      (use e lookup_throws(1,2) in \<open>auto simp: from_lookup_def\<close>)
next
  case (lookup_returns k r')
  with assms have e: "x = Inr k" "h1 = h\<lparr>op_kind_fld := k, once_fld := Done\<rparr>"
    "mem w1 = mem w" "registry w1 = r'" by auto
  show ?thesis
    by (rule that[of "[mem w (name_fld h)]"])
      (use e lookup_returns(1,2) in \<open>auto simp: from_lookup_def\<close>)
qed

lemma run2_call1:
  assumes "c = Star1 \<or> c = Conv1"
  shows "run2 G (c # ss) ha hb w =
     (case get G ha w of
        (x, ha', w') \<Rightarrow>
          (case run2 G ss ha' hb w' of
             (xs, ys, ha'', hb'', w'') \<Rightarrow> (x # xs, ys, ha'', hb'', w'')))"
  using assms by (auto simp: operator_star_def operator_OpKind_def)

lemma run2_call2:
  assumes "c = Star2 \<or> c = Conv2"
  shows "run2 G (c # ss) ha hb w =
     (case get G hb w of
        (y, hb', w') \<Rightarrow>
          (case run2 G ss ha hb' w' of
             (xs, ys, ha'', hb'', w'') \<Rightarrow> (xs, y # ys, ha'', hb'', w'')))"
  using assms by (auto simp: operator_star_def operator_OpKind_def split: prod.splits)

text \<open>
  Every value returned along a run of two handles comes from a lookup in one and the same
  history of the registry the run started with.
\<close>

lemma run2_from_lookup:
  assumes "run2 G ss ha hb w = (xs, ys, ha', hb', w')"
    and "\<forall>m. Store m \<in> set ss \<longrightarrow>
           m (name_fld ha) = mem w (name_fld ha) \<and> m (name_fld hb) = mem w (name_fld hb)"
  shows "\<exists>ns. (\<forall>v \<in> set (returned xs). from_lookup G ha w ns v)
            \<and> (\<forall>v \<in> set (returned ys). from_lookup G hb w ns v)"
  using assms
proof (induction ss arbitrary: ha hb w xs ys ha' hb' w')
  case Nil
  then show ?case by simp
next
  case (Cons c ss)
  from Cons.prems(2) have st: "\<forall>m. Store m \<in> set ss \<longrightarrow>
      m (name_fld ha) = mem w (name_fld ha) \<and> m (name_fld hb) = mem w (name_fld hb)"
    by simp
  consider (one) "c = Star1 \<or> c = Conv1" | (two) "c = Star2 \<or> c = Conv2"
    | (other) s where "c = Other s" | (store) m where "c = Store m"
    by (cases c) auto
  then show ?case
  proof cases
    case one
    obtain x h1 w1 where g: "get G ha w = (x, h1, w1)" by (cases "get G ha w")
    obtain xs0 ys0 ha0 hb0 w0 where r: "run2 G ss h1 hb w1 = (xs0, ys0, ha0, hb0, w0)"
      by (cases "run2 G ss h1 hb w1")
    from Cons.prems(1) one g r have eq: "xs = x # xs0" "ys = ys0"
      by (simp_all add: run2_call1)
    from get_lifts[OF g] obtain l where l: "mem w1 = mem w" "name_fld h1 = name_fld ha"
      "\<And>ns v. from_lookup G h1 w1 ns v \<Longrightarrow> from_lookup G ha w (l @ ns) v"
      "\<And>ns v. x = Inr v \<Longrightarrow> from_lookup G ha w (l @ ns) v"
      "\<And>h' ns v. from_lookup G h' w1 ns v \<Longrightarrow> from_lookup G h' w (l @ ns) v"
      by blast
    from st l(1,2) have "\<forall>m. Store m \<in> set ss \<longrightarrow>
        m (name_fld h1) = mem w1 (name_fld h1) \<and> m (name_fld hb) = mem w1 (name_fld hb)"
      by simp
    from Cons.IH[OF r this] obtain ns where
      ns: "\<forall>v \<in> set (returned xs0). from_lookup G h1 w1 ns v"
        "\<forall>v \<in> set (returned ys0). from_lookup G hb w1 ns v"
      by blast
    have "\<forall>v \<in> set (returned xs). from_lookup G ha w (l @ ns) v"
    proof
      fix v assume "v \<in> set (returned xs)"
      with eq have "x = Inr v \<or> v \<in> set (returned xs0)" by (cases x) auto
      with l(3,4) ns(1) show "from_lookup G ha w (l @ ns) v" by blast
    qed
    moreover from eq ns(2) l(5) have "\<forall>v \<in> set (returned ys). from_lookup G hb w (l @ ns) v"
      by blast
    ultimately show ?thesis by blast
  next
    case two
    obtain y h1 w1 where g: "get G hb w = (y, h1, w1)" by (cases "get G hb w")
    obtain xs0 ys0 ha0 hb0 w0 where r: "run2 G ss ha h1 w1 = (xs0, ys0, ha0, hb0, w0)"
      by (cases "run2 G ss ha h1 w1")
    from Cons.prems(1) two g r have eq: "xs = xs0" "ys = y # ys0"
      by (simp_all add: run2_call2)
    from get_lifts[OF g] obtain l where l: "mem w1 = mem w" "name_fld h1 = name_fld hb"
      "\<And>ns v. from_lookup G h1 w1 ns v \<Longrightarrow> from_lookup G hb w (l @ ns) v"
      "\<And>ns v. y = Inr v \<Longrightarrow> from_lookup G hb w (l @ ns) v"
      "\<And>h' ns v. from_lookup G h' w1 ns v \<Longrightarrow> from_lookup G h' w (l @ ns) v"
      by blast
    from st l(1,2) have "\<forall>m. Store m \<in> set ss \<longrightarrow>
        m (name_fld ha) = mem w1 (name_fld ha) \<and> m (name_fld h1) = mem w1 (name_fld h1)"
      by simp
    from Cons.IH[OF r this] obtain ns where
      ns: "\<forall>v \<in> set (returned xs0). from_lookup G ha w1 ns v"
        "\<forall>v \<in> set (returned ys0). from_lookup G h1 w1 ns v"
      by blast
    have "\<forall>v \<in> set (returned ys). from_lookup G hb w (l @ ns) v"
    proof
      fix v assume "v \<in> set (returned ys)"
      with eq have "y = Inr v \<or> v \<in> set (returned ys0)" by (cases y) auto
      with l(3,4) ns(2) show "from_lookup G hb w (l @ ns) v" by blast
    qed
    moreover from eq ns(1) l(5) have "\<forall>v \<in> set (returned xs). from_lookup G ha w (l @ ns) v"
      by blast
    ultimately show ?thesis by blast
  next
    case (other s)
    obtain z r' where gz: "G (registry w) s = (z, r')" by (cases "G (registry w) s")
    let ?w1 = "w\<lparr>registry := r', trace := trace w @ [Lookup s]\<rparr>"
    from Cons.prems(1) other gz have r: "run2 G ss ha hb ?w1 = (xs, ys, ha', hb', w')"
      by (simp add: OpKind_Get_def)
    from st have "\<forall>m. Store m \<in> set ss \<longrightarrow>
        m (name_fld ha) = mem ?w1 (name_fld ha) \<and> m (name_fld hb) = mem ?w1 (name_fld hb)"
      by simp
    from Cons.IH[OF r this] obtain ns where
      ns: "\<forall>v \<in> set (returned xs). from_lookup G ha ?w1 ns v"
        "\<forall>v \<in> set (returned ys). from_lookup G hb ?w1 ns v"
      by blast
    have lift: "\<And>h v. from_lookup G h ?w1 ns v \<Longrightarrow> from_lookup G h w (s # ns) v"
      using gz by (auto simp: from_lookup_def)
    from ns lift show ?thesis by blast
  next
    case (store m)
    let ?w1 = "w\<lparr>mem := m\<rparr>"
    from Cons.prems(1) store have r: "run2 G ss ha hb ?w1 = (xs, ys, ha', hb', w')"
      by simp
    from Cons.prems(2) store have m: "m (name_fld ha) = mem w (name_fld ha)"
      "m (name_fld hb) = mem w (name_fld hb)" by simp_all
    with st have "\<forall>m. Store m \<in> set ss \<longrightarrow>
        m (name_fld ha) = mem ?w1 (name_fld ha) \<and> m (name_fld hb) = mem ?w1 (name_fld hb)"
      by simp
    from Cons.IH[OF r this] obtain ns where
      ns: "\<forall>v \<in> set (returned xs). from_lookup G ha ?w1 ns v"
        "\<forall>v \<in> set (returned ys). from_lookup G hb ?w1 ns v"
      by blast
    with m show ?thesis by (auto simp: from_lookup_def)
  qed
qed

section \<open>The model on the sample registry\<close>

lemma sample_mem_simps [simp]:
  "sample_mem 0 = ''lazy_tensors::select''"
  "sample_mem (Suc 0) = ''lazy_tensors::cast''"
  by (simp_all add: sample_mem_def)

lemma sample_get_uninit:
  "get sample_Get (OpKindWrapper_init [] 0) (sample_world Uninit) =
     (Inl Not_initialized, OpKindWrapper_init [] 0,
      \<lparr>mem = sample_mem, registry = Uninit, trace = [Lookup ''lazy_tensors::select'']\<rparr>)"
  by (simp add: get_def call_once_def resolve_body_def OpKind_Get_def
      OpKindWrapper_init_def sample_world_def)

lemma sample_run:
  "run sample_Get sample_client (OpKindWrapper_init [] 0) (sample_world Uninit) =
     ([Inl Not_initialized, Inr ''lazy_tensors::select'', Inr ''lazy_tensors::select''],
      \<lparr>name_fld = 0, op_kind_fld = ''lazy_tensors::select'', once_fld = Done\<rparr>,
      \<lparr>mem = sample_mem, registry = Ready [''lazy_tensors::select''],
       trace = [Lookup ''lazy_tensors::select'', Lookup ''lazy_tensors::select'',
                Assign ''lazy_tensors::select'']\<rparr>)"
  by (simp add: sample_client_def operator_star_def operator_OpKind_def
      get_def call_once_def resolve_body_def OpKind_Get_def
      OpKindWrapper_init_def sample_world_def)

lemma sample_run_fail_twice:
  "run sample_Get [Star, Star] (OpKindWrapper_init [] 0) (sample_world Uninit) =
     ([Inl Not_initialized, Inl Not_initialized], OpKindWrapper_init [] 0,
      \<lparr>mem = sample_mem, registry = Uninit,
       trace = [Lookup ''lazy_tensors::select'', Lookup ''lazy_tensors::select'']\<rparr>)"
  by (simp add: operator_star_def get_def call_once_def resolve_body_def OpKind_Get_def
      OpKindWrapper_init_def sample_world_def)

lemma sample_run_ready:
  "run sample_Get [Star, Conv] (OpKindWrapper_init [] 0) (sample_world (Ready [])) =
     ([Inr ''lazy_tensors::select'', Inr ''lazy_tensors::select''],
      \<lparr>name_fld = 0, op_kind_fld = ''lazy_tensors::select'', once_fld = Done\<rparr>,
      \<lparr>mem = sample_mem, registry = Ready [''lazy_tensors::select''],
       trace = [Lookup ''lazy_tensors::select'', Assign ''lazy_tensors::select'']\<rparr>)"
  by (simp add: operator_star_def operator_OpKind_def
      get_def call_once_def resolve_body_def OpKind_Get_def
      OpKindWrapper_init_def sample_world_def)

lemma sample_run_resolved:
  "run sample_Get [Star, Conv]
      \<lparr>name_fld = 0, op_kind_fld = ''lazy_tensors::select'', once_fld = Done\<rparr>
      (sample_world Uninit) =
     ([Inr ''lazy_tensors::select'', Inr ''lazy_tensors::select''],
      \<lparr>name_fld = 0, op_kind_fld = ''lazy_tensors::select'', once_fld = Done\<rparr>,
      sample_world Uninit)"
  by (simp add: operator_star_def operator_OpKind_def get_def call_once_def)

text \<open>
  The interning registry only ever appends, so the index a lookup returned stays the
  index of that name, and two names never share one.
\<close>

lemma position_Some: "position s ns = Some i \<Longrightarrow> i < length ns \<and> ns ! i = s"
  by (induction ns arbitrary: i) (auto split: if_splits option.splits)

lemma intern_Get_extends: "\<exists>zs. snd (intern_Get ns s) = ns @ zs"
  by (simp add: intern_Get_def split: option.splits)

lemma intern_Get_Inr:
  assumes "intern_Get ns s = (Inr k, ns')"
  shows "k < length ns' \<and> ns' ! k = s"
  using assms position_Some[of s ns]
  by (auto simp: intern_Get_def nth_append split: if_splits option.splits)

lemma final_registry_extends: "\<exists>zs. final_registry intern_Get r ns = r @ zs"
proof (induction ns arbitrary: r)
  case Nil
  show ?case by simp
next
  case (Cons n ns)
  from intern_Get_extends[of r n] obtain zs where 1: "snd (intern_Get r n) = r @ zs" by blast
  from Cons[of "r @ zs"] obtain zs' where "final_registry intern_Get (r @ zs) ns = (r @ zs) @ zs'"
    by blast
  with 1 show ?case by simp
qed

lemma replay_intern:
  "(s, Inr k) \<in> set (replay intern_Get r ns) \<Longrightarrow>
     k < length (final_registry intern_Get r ns) \<and> final_registry intern_Get r ns ! k = s"
proof (induction ns arbitrary: r)
  case Nil
  then show ?case by simp
next
  case (Cons n ns)
  obtain x r' where g: "intern_Get r n = (x, r')" by (cases "intern_Get r n")
  with Cons.prems have "(s, Inr k) = (n, x) \<or> (s, Inr k) \<in> set (replay intern_Get r' ns)"
    by simp
  then show ?case
  proof
    assume "(s, Inr k) = (n, x)"
    with g have "intern_Get r s = (Inr k, r')" by simp
    from intern_Get_Inr[OF this] have k: "k < length r'" "r' ! k = s" by simp_all
    from final_registry_extends[of r' ns] obtain zs where
      "final_registry intern_Get r' ns = r' @ zs" by blast
    with k g show ?thesis by (simp add: nth_append)
  next
    assume "(s, Inr k) \<in> set (replay intern_Get r' ns)"
    from Cons.IH[OF this] g show ?thesis by simp
  qed
qed

lemma intern_Get_distinct:
  "\<forall>ns s s' k k'.
     (s, Inr k) \<in> set (replay intern_Get r ns)
     \<and> (s', Inr k') \<in> set (replay intern_Get r ns) \<and> s \<noteq> s' \<longrightarrow> k \<noteq> k'"
  using replay_intern by blast

lemma two_clients_run:
  "run2 intern_Get two_clients (OpKindWrapper_init 0 0) (OpKindWrapper_init 0 (Suc 0))
      intern_world =
     ([Inr 0, Inr 0], [Inr (Suc 0), Inr (Suc 0)],
      \<lparr>name_fld = 0, op_kind_fld = 0, once_fld = Done\<rparr>,
      \<lparr>name_fld = Suc 0, op_kind_fld = Suc 0, once_fld = Done\<rparr>,
      \<lparr>mem = sample_mem,
       registry = [''lazy_tensors::select'', ''lazy_tensors::cast'', ''lazy_tensors::nms''],
       trace = [Lookup ''lazy_tensors::select'', Assign 0,
                Lookup ''lazy_tensors::cast'', Assign (Suc 0),
                Lookup ''lazy_tensors::nms'']\<rparr>)"
  by (simp add: two_clients_def operator_star_def operator_OpKind_def
      get_def call_once_def resolve_body_def OpKind_Get_def intern_Get_def
      OpKindWrapper_init_def intern_world_def)

section \<open>Memoization\<close>

text \<open>
  C1, as the spec states it: for every sequence of calls of the accessors on one handle the
  lookup is invoked at most once. This fails when a lookup throws. On a registry that is
  not initialised, two dereferences of a new handle invoke the lookup twice.
\<close>

theorem lookup_at_most_once_counterexample:
  "\<not> length (lookups (trace (snd (snd
        (run sample_Get [Star, Star] (OpKindWrapper_init [] 0) (sample_world Uninit)))))) \<le> 1"
  by (subst sample_run_fail_twice) simp

text \<open>
  C1, amended: in every sequence of calls of the accessors on one handle, with anything
  happening to memory and registry in between, the lookup is invoked once by each call
  that throws and once more by the first call that returns, if the handle was not resolved
  before, and by no other call. So it is invoked at most once when no call throws. All
  calls that return, return the same value.
\<close>

theorem get_memoizes:
  assumes "run G as h w = (xs, h', w')"
  shows "length (lookups (trace w')) =
           length (lookups (trace w)) + length (thrown xs)
             + (if once_fld h = Fresh \<and> returned xs \<noteq> [] then 1 else 0)
       \<and> (thrown xs = [] \<longrightarrow> length (lookups (trace w')) \<le> length (lookups (trace w)) + 1)
       \<and> (\<forall>k \<in> set (returned xs). \<forall>k' \<in> set (returned xs). k = k')"
proof -
  from run_inv[OF assms] obtain ss where
    ss: "lookups (trace w') = lookups (trace w) @ ss"
      "length ss = length (thrown xs)
         + (if once_fld h = Fresh \<and> returned xs \<noteq> [] then 1 else 0)"
    and eq: "set (returned xs) \<subseteq> {op_kind_fld h'}"
    by blast
  from ss have 1: "length (lookups (trace w')) =
           length (lookups (trace w)) + length (thrown xs)
             + (if once_fld h = Fresh \<and> returned xs \<noteq> [] then 1 else 0)"
    by simp
  then have 2: "thrown xs = [] \<longrightarrow> length (lookups (trace w')) \<le> length (lookups (trace w)) + 1"
    by simp
  from eq have 3: "\<forall>k \<in> set (returned xs). \<forall>k' \<in> set (returned xs). k = k'"
    by auto
  from 1 2 3 show ?thesis by blast
qed

text \<open>
  C1, amended, on the sample registry. The sample client: one call throws and two return,
  the lookup is invoked twice, and the two values returned are the same. A dereference and
  a conversion on an initialised registry: no call throws and the lookup is invoked once.
\<close>

theorem get_memoizes_witness:
  "length (lookups (trace (snd (snd
      (run sample_Get sample_client (OpKindWrapper_init [] 0) (sample_world Uninit)))))) = 2
   \<and> thrown (fst (run sample_Get sample_client (OpKindWrapper_init [] 0) (sample_world Uninit)))
      = [Not_initialized]
   \<and> returned (fst (run sample_Get sample_client (OpKindWrapper_init [] 0) (sample_world Uninit)))
      = [''lazy_tensors::select'', ''lazy_tensors::select'']
   \<and> thrown (fst (run sample_Get [Star, Conv] (OpKindWrapper_init [] 0) (sample_world (Ready []))))
      = []
   \<and> length (lookups (trace (snd (snd
      (run sample_Get [Star, Conv] (OpKindWrapper_init [] 0) (sample_world (Ready [])))))))
      \<le> 1"
proof -
  from get_memoizes[OF sample_run]
  have a: "length (lookups [Lookup ''lazy_tensors::select'', Lookup ''lazy_tensors::select'',
      Assign ''lazy_tensors::select'']) = 2"
    by (simp add: sample_world_def OpKindWrapper_init_def)
  have b: "thrown [Inl Not_initialized, Inr ''lazy_tensors::select'', Inr ''lazy_tensors::select'']
      = [Not_initialized]"
    and c: "returned [Inl Not_initialized, Inr ''lazy_tensors::select'',
      Inr ''lazy_tensors::select''] = [''lazy_tensors::select'', ''lazy_tensors::select'']"
    and d: "thrown [Inr ''lazy_tensors::select'', Inr ''lazy_tensors::select''] = ([] :: lookup_failure list)"
    by simp_all
  from get_memoizes[OF sample_run_ready] d
  have e: "length (lookups [Lookup ''lazy_tensors::select'', Assign ''lazy_tensors::select''])
      \<le> 1"
    by (simp add: sample_world_def)
  from a b c d e show ?thesis
    unfolding sample_run sample_run_ready fst_conv snd_conv world.simps
    by (intro conjI)
qed

section \<open>Construction\<close>

text \<open>
  C3: constructing a handle invokes no lookup: the trace after the constructor is the trace
  before it, and the new handle is not resolved. Nothing that happens before the first
  call of an accessor invokes one either. The first call of an accessor is what invokes
  the lookup, once, with the name found at the pointer at that moment.
\<close>

theorem construct_is_lazy:
  assumes "construct k0 p w = (h, w1)"
    and "\<forall>a \<in> set pre. \<not> is_call a"
    and "is_call c"
    and "run G pre h w1 = (xs, h', w')"
    and "run G [c] h' w' = (ys, h'', w'')"
  shows "trace w1 = trace w \<and> once_fld h = Fresh
       \<and> xs = [] \<and> trace w' = trace w
       \<and> lookups (trace w'') = lookups (trace w) @ [mem w' p]"
proof -
  from assms(1) have c: "w1 = w" "h = OpKindWrapper_init k0 p"
    by (simp_all add: construct_def)
  then have f: "once_fld h = Fresh" "name_fld h = p"
    by (simp_all add: OpKindWrapper_init_def)
  from run_no_call[OF assms(2,4)] c have n: "xs = []" "h' = h" "trace w' = trace w"
    by simp_all
  from assms(3) have "c = Star \<or> c = Conv" by (simp add: is_call_iff)
  from run_call[OF this, of G "[]" h' w'] assms(5)
  have "w'' = snd (snd (get G h' w'))"
    by (simp split: prod.splits)
  with get_Fresh_lookups[of h G w'] n f
  have "lookups (trace w'') = lookups (trace w) @ [mem w' p]" by simp
  with c f n show ?thesis by simp
qed

text \<open>
  C3 on the sample registry: a handle is constructed, the registry is initialised, and then
  the first dereference looks the name up.
\<close>

theorem construct_is_lazy_witness:
  "construct [] 0 (sample_world Uninit) = (OpKindWrapper_init [] 0, sample_world Uninit)
   \<and> \<not> is_call (Env sample_mem (Ready [])) \<and> is_call (Star :: sample_registry action)
   \<and> run sample_Get [Env sample_mem (Ready [])] (OpKindWrapper_init [] 0) (sample_world Uninit)
       = ([], OpKindWrapper_init [] 0, sample_world (Ready []))
   \<and> lookups (trace (snd (snd
        (run sample_Get [Star] (OpKindWrapper_init [] 0) (sample_world (Ready []))))))
       = [''lazy_tensors::select'']"
proof -
  have 1: "construct [] 0 (sample_world Uninit) = (OpKindWrapper_init [] 0, sample_world Uninit)"
    by (simp add: construct_def)
  have 2: "\<forall>a \<in> set [Env sample_mem (Ready [])]. \<not> is_call a"
    by (simp add: is_call_def)
  have 3: "is_call (Star :: sample_registry action)" by (simp add: is_call_def)
  have 4: "run sample_Get [Env sample_mem (Ready [])] (OpKindWrapper_init [] 0) (sample_world Uninit)
       = ([], OpKindWrapper_init [] 0, sample_world (Ready []))"
    by (simp add: sample_world_def)
  obtain ys h'' w'' where 5:
    "run sample_Get [Star] (OpKindWrapper_init [] 0) (sample_world (Ready [])) = (ys, h'', w'')"
    by (cases "run sample_Get [Star] (OpKindWrapper_init [] 0) (sample_world (Ready []))")
  from construct_is_lazy[OF 1 2 3 4 5] 1 2 3 4 5 show ?thesis
    by (simp add: sample_world_def)
qed

section \<open>The cached kind, for calls in sequence\<close>

text \<open>
  Among calls of the accessors that follow one another, with anything happening to memory
  and registry in between, there is at most one assignment to the cached kind. It happens
  only when the handle was not resolved before and some call returned, and the value
  assigned is the one the handle holds at the end and the one every returning call got.
  On a handle that is resolved no call changes anything in it, and a call that throws
  changes nothing in it. This is a fact about calls in sequence; it says nothing about
  callers that are inside \<open>get\<close> at the same time.
\<close>

lemma run_assigns_at_most_once:
  assumes "run G as h w = (xs, h', w')"
  shows "assigns (trace w') = assigns (trace w)
           @ (if once_fld h = Fresh \<and> returned xs \<noteq> [] then [op_kind_fld h'] else [])
       \<and> length (assigns (trace w')) \<le> length (assigns (trace w)) + 1
       \<and> (\<forall>k \<in> set (returned xs). k = op_kind_fld h')
       \<and> (once_fld h = Done \<longrightarrow> h' = h)
       \<and> (returned xs = [] \<longrightarrow> h' = h)
       \<and> (once_fld h' = Done \<longleftrightarrow> once_fld h = Done \<or> returned xs \<noteq> [])"
proof -
  note inv = run_inv[OF assms]
  from inv have 1: "assigns (trace w') = assigns (trace w)
           @ (if once_fld h = Fresh \<and> returned xs \<noteq> [] then [op_kind_fld h'] else [])"
    by blast
  then have 2: "length (assigns (trace w')) \<le> length (assigns (trace w)) + 1" by simp
  from inv have "set (returned xs) \<subseteq> {op_kind_fld h'}" by blast
  then have 3: "\<forall>k \<in> set (returned xs). k = op_kind_fld h'" by auto
  from inv have 4: "once_fld h = Done \<longrightarrow> h' = h" and 5: "returned xs = [] \<longrightarrow> h' = h"
    and 6: "once_fld h' = Done \<longleftrightarrow> once_fld h = Done \<or> returned xs \<noteq> []"
    by blast+
  from 1 2 3 4 5 6 show ?thesis by blast
qed

text \<open>
  On the sample registry. The sample client: three calls, one assignment, and both calls
  that return, return the value assigned. Two calls on a handle that is resolved leave it
  as it is. Two calls that throw leave the handle as the constructor made it.
\<close>

lemma run_assigns_at_most_once_sample:
  "assigns (trace (snd (snd
      (run sample_Get sample_client (OpKindWrapper_init [] 0) (sample_world Uninit)))))
     = [''lazy_tensors::select'']
   \<and> returned (fst (run sample_Get sample_client (OpKindWrapper_init [] 0) (sample_world Uninit)))
     = [''lazy_tensors::select'', ''lazy_tensors::select'']
   \<and> once_fld \<lparr>name_fld = 0, op_kind_fld = ''lazy_tensors::select'', once_fld = Done\<rparr> = Done
   \<and> fst (snd (run sample_Get [Star, Conv]
        \<lparr>name_fld = 0, op_kind_fld = ''lazy_tensors::select'', once_fld = Done\<rparr>
        (sample_world Uninit)))
     = \<lparr>name_fld = 0, op_kind_fld = ''lazy_tensors::select'', once_fld = Done\<rparr>
   \<and> returned (fst (run sample_Get [Star, Star] (OpKindWrapper_init [] 0) (sample_world Uninit)))
     = []
   \<and> fst (snd (run sample_Get [Star, Star] (OpKindWrapper_init [] 0) (sample_world Uninit)))
     = OpKindWrapper_init [] 0"
proof -
  from run_assigns_at_most_once[OF sample_run]
  have a: "assigns [Lookup ''lazy_tensors::select'', Lookup ''lazy_tensors::select'',
      Assign ''lazy_tensors::select''] = [''lazy_tensors::select'']"
    by (simp add: sample_world_def OpKindWrapper_init_def)
  have b: "returned [Inl Not_initialized, Inr ''lazy_tensors::select'',
      Inr ''lazy_tensors::select''] = [''lazy_tensors::select'', ''lazy_tensors::select'']"
    by simp
  have c: "once_fld \<lparr>name_fld = 0, op_kind_fld = ''lazy_tensors::select'', once_fld = Done\<rparr>
      = Done"
    by simp
  from run_assigns_at_most_once[OF sample_run_resolved] c
  have d: "\<lparr>name_fld = 0, op_kind_fld = ''lazy_tensors::select'', once_fld = Done\<rparr>
      = \<lparr>name_fld = 0, op_kind_fld = ''lazy_tensors::select'', once_fld = Done\<rparr>"
    by blast
  have e: "returned [Inl Not_initialized, Inl Not_initialized] = ([] :: string list)"
    by simp
  from run_assigns_at_most_once[OF sample_run_fail_twice] e
  have f: "OpKindWrapper_init [] 0 = OpKindWrapper_init [] 0"
    by blast
  from a b c d e f show ?thesis
    unfolding sample_run sample_run_resolved sample_run_fail_twice fst_conv snd_conv world.simps
    by (intro conjI)
qed

section \<open>Failures of the lookup\<close>

text \<open>
  C5: when the lookup that a call makes to resolve the handle throws, the call throws the
  same failure. The state it leaves is the one the lookup left: the handle is as it was,
  nothing has been cached, and the trace has grown by this one lookup, so the call has
  neither tried again nor put a value of its own in place of the result. This holds for
  \<open>get\<close> and for both accessors.
\<close>

theorem lookup_failure_propagates:
  assumes "once_fld h = Fresh"
    and "OpKind_Get G (mem w (name_fld h)) w = (Inl e, w1)"
  shows "get G h w = (Inl e, h, w1)
       \<and> operator_star G h w = (Inl e, h, w1)
       \<and> operator_OpKind G h w = (Inl e, h, w1)
       \<and> trace w1 = trace w @ [Lookup (mem w (name_fld h))]"
proof -
  from assms(2) have t: "trace w1 = trace w @ [Lookup (mem w (name_fld h))]"
    by (auto simp: OpKind_Get_def split: prod.splits)
  from assms have "get G h w = (Inl e, h, w1)"
    by (simp add: get_def call_once_def resolve_body_def)
  with t show ?thesis by (simp add: operator_star_def operator_OpKind_def)
qed

text \<open>C5 on a new handle and a registry that is not initialised.\<close>

theorem lookup_failure_propagates_witness:
  "once_fld (OpKindWrapper_init [] 0) = Fresh
   \<and> OpKind_Get sample_Get (mem (sample_world Uninit) (name_fld (OpKindWrapper_init [] 0)))
        (sample_world Uninit)
      = (Inl Not_initialized,
         \<lparr>mem = sample_mem, registry = Uninit, trace = [Lookup ''lazy_tensors::select'']\<rparr>)
   \<and> operator_star sample_Get (OpKindWrapper_init [] 0) (sample_world Uninit)
      = (Inl Not_initialized, OpKindWrapper_init [] 0,
         \<lparr>mem = sample_mem, registry = Uninit, trace = [Lookup ''lazy_tensors::select'']\<rparr>)"
proof -
  have 1: "once_fld (OpKindWrapper_init [] 0) = Fresh"
    by (simp add: OpKindWrapper_init_def)
  have 2: "OpKind_Get sample_Get
      (mem (sample_world Uninit) (name_fld (OpKindWrapper_init [] 0))) (sample_world Uninit)
      = (Inl Not_initialized,
         \<lparr>mem = sample_mem, registry = Uninit, trace = [Lookup ''lazy_tensors::select'']\<rparr>)"
    by (simp add: OpKind_Get_def OpKindWrapper_init_def sample_world_def)
  from lookup_failure_propagates[OF 1 2] 1 2 show ?thesis by simp
qed

text \<open>
  C6: a call that throws leaves the flag unset and the handle as it was. The next call, in
  whatever state memory and registry are by then, invokes the lookup again, and its outcome
  is the outcome of that new lookup, not the failure of the earlier call.
\<close>

theorem failed_resolution_is_retried:
  assumes "get G h w = (Inl e, h1, w1)"
  shows "h1 = h \<and> once_fld h1 = Fresh
       \<and> lookups (trace (snd (snd (get G h1 w2)))) = lookups (trace w2) @ [mem w2 (name_fld h)]
       \<and> fst (get G h1 w2) = fst (G (registry w2) (mem w2 (name_fld h)))"
proof -
  from get_throws_unchanged[OF assms] have u: "h1 = h" "once_fld h = Fresh" by simp_all
  from get_Fresh_lookups[OF u(2), of G w2] get_lookup_outcome[OF u(2), of G w2] u
  show ?thesis by simp
qed

text \<open>
  C6 on the sample registry: the first call fails because the registry is not initialised;
  once it is, the second call on the same handle looks the name up again and returns.
\<close>

theorem failed_resolution_is_retried_witness:
  "get sample_Get (OpKindWrapper_init [] 0) (sample_world Uninit) =
     (Inl Not_initialized, OpKindWrapper_init [] 0,
      \<lparr>mem = sample_mem, registry = Uninit, trace = [Lookup ''lazy_tensors::select'']\<rparr>)
   \<and> lookups (trace (snd (snd
        (get sample_Get (OpKindWrapper_init [] 0) (sample_world (Ready []))))))
      = [''lazy_tensors::select'']
   \<and> fst (get sample_Get (OpKindWrapper_init [] 0) (sample_world (Ready [])))
      = Inr ''lazy_tensors::select''"
  using failed_resolution_is_retried[OF sample_get_uninit, of "sample_world (Ready [])"]
    sample_get_uninit
  by (simp add: sample_world_def OpKindWrapper_init_def)

section \<open>Distinct names\<close>

text \<open>
  C7: let the registry be one that, along every history of lookups from the state it is
  in, never gives the same kind to two different names. Take two handles constructed on
  pointers to different names that share this registry, and any sequence of calls of
  the accessors of the one and of the other, of lookups by other clients, and of changes
  to memory that leave the two names in place. Then a value returned by a call on the
  first handle differs from a value returned by a call on the second.
\<close>

theorem distinct_names_resolve_to_distinct_kinds:
  assumes "\<forall>ns s s' k k'.
             (s, Inr k) \<in> set (replay G (registry w) ns)
             \<and> (s', Inr k') \<in> set (replay G (registry w) ns) \<and> s \<noteq> s' \<longrightarrow> k \<noteq> k'"
    and "mem w p1 \<noteq> mem w p2"
    and "run2 G ss (OpKindWrapper_init k0 p1) (OpKindWrapper_init k0 p2) w
           = (xs, ys, ha', hb', w')"
    and "\<forall>m. Store m \<in> set ss \<longrightarrow> m p1 = mem w p1 \<and> m p2 = mem w p2"
    and "v1 \<in> set (returned xs)"
    and "v2 \<in> set (returned ys)"
  shows "v1 \<noteq> v2"
proof -
  have f: "once_fld (OpKindWrapper_init k0 p1) = Fresh" "name_fld (OpKindWrapper_init k0 p1) = p1"
    "once_fld (OpKindWrapper_init k0 p2) = Fresh" "name_fld (OpKindWrapper_init k0 p2) = p2"
    by (simp_all add: OpKindWrapper_init_def)
  from assms(4) f have "\<forall>m. Store m \<in> set ss \<longrightarrow>
      m (name_fld (OpKindWrapper_init k0 p1)) = mem w (name_fld (OpKindWrapper_init k0 p1))
      \<and> m (name_fld (OpKindWrapper_init k0 p2)) = mem w (name_fld (OpKindWrapper_init k0 p2))"
    by simp
  from run2_from_lookup[OF assms(3) this] assms(5,6) obtain ns where
    "from_lookup G (OpKindWrapper_init k0 p1) w ns v1"
    "from_lookup G (OpKindWrapper_init k0 p2) w ns v2"
    by blast
  with f have "(mem w p1, Inr v1) \<in> set (replay G (registry w) ns)"
    "(mem w p2, Inr v2) \<in> set (replay G (registry w) ns)"
    by (simp_all add: from_lookup_def)
  with assms(1,2) show ?thesis by blast
qed

text \<open>
  C7 on the interning registry. Asked first, either name gets kind 0, so the kind of a
  name is not the same in every state of the registry. On the shared registry the handle
  on the name at address 0 resolves to 0 and the handle on the name at address 1 to 1.
\<close>

theorem distinct_names_resolve_to_distinct_kinds_witness:
  "mem intern_world 0 \<noteq> mem intern_world (Suc 0)
   \<and> fst (intern_Get [] ''lazy_tensors::select'') = Inr 0
   \<and> fst (intern_Get [] ''lazy_tensors::cast'') = Inr 0
   \<and> returned (fst (run2 intern_Get two_clients (OpKindWrapper_init 0 0)
        (OpKindWrapper_init 0 (Suc 0)) intern_world)) = [0, 0]
   \<and> returned (fst (snd (run2 intern_Get two_clients (OpKindWrapper_init 0 0)
        (OpKindWrapper_init 0 (Suc 0)) intern_world))) = [Suc 0, Suc 0]
   \<and> (0 :: nat) \<noteq> Suc 0"
proof -
  have 1: "mem intern_world 0 \<noteq> mem intern_world (Suc 0)"
    by (simp add: intern_world_def)
  have 2: "fst (intern_Get [] ''lazy_tensors::select'') = Inr 0"
    "fst (intern_Get [] ''lazy_tensors::cast'') = Inr 0"
    by (simp_all add: intern_Get_def)
  have 3: "\<forall>m. Store m \<in> set two_clients \<longrightarrow>
      m 0 = mem intern_world 0 \<and> m (Suc 0) = mem intern_world (Suc 0)"
    by (simp add: two_clients_def intern_world_def)
  have 4: "(0 :: nat) \<in> set (returned [Inr 0, Inr 0 :: lookup_failure + nat])"
    and 5: "Suc 0 \<in> set (returned [Inr (Suc 0), Inr (Suc 0) :: lookup_failure + nat])"
    by simp_all
  have a: "returned (fst (run2 intern_Get two_clients (OpKindWrapper_init 0 0)
        (OpKindWrapper_init 0 (Suc 0)) intern_world)) = [0, 0]"
    by (subst two_clients_run) simp
  have b: "returned (fst (snd (run2 intern_Get two_clients (OpKindWrapper_init 0 0)
        (OpKindWrapper_init 0 (Suc 0)) intern_world))) = [Suc 0, Suc 0]"
    by (subst two_clients_run) simp
  note c = distinct_names_resolve_to_distinct_kinds[of intern_Get intern_world,
      OF intern_Get_distinct 1 two_clients_run 3 4 5]
  from conjI[OF 1 conjI[OF 2(1) conjI[OF 2(2) conjI[OF a conjI[OF b c]]]]] show ?thesis .
qed

section \<open>The two accessors\<close>

text \<open>
  C8: on any handle in any state the conversion operator and the dereference operator
  have the same outcome and leave the same handle, registry and trace, namely those of
  \<open>get\<close>; and exchanging one for the other anywhere in a sequence of calls changes
  nothing.
\<close>

theorem accessors_agree:
  "operator_OpKind G h w = operator_star G h w
   \<and> operator_star G h w = get G h w
   \<and> run G (map swap_accessor as) h w = run G as h w"
  by (simp add: operator_OpKind_def operator_star_def run_swap_accessor)

text \<open>C8 on the sample client, with every accessor exchanged for the other.\<close>

theorem accessors_agree_witness:
  "run sample_Get [Conv, Env sample_mem (Ready []), Star, Conv]
      (OpKindWrapper_init [] 0) (sample_world Uninit)
   = run sample_Get [Star, Env sample_mem (Ready []), Conv, Star]
      (OpKindWrapper_init [] 0) (sample_world Uninit)"
proof -
  have m: "map swap_accessor [Star, Env sample_mem (Ready []), Conv, Star]
      = [Conv, Env sample_mem (Ready []), Star, Conv]"
    by (simp add: swap_accessor_def)
  from accessors_agree[of sample_Get "OpKindWrapper_init [] 0" "sample_world Uninit"
      "[Star, Env sample_mem (Ready []), Conv, Star]"]
  have "run sample_Get (map swap_accessor [Star, Env sample_mem (Ready []), Conv, Star])
      (OpKindWrapper_init [] 0) (sample_world Uninit)
   = run sample_Get [Star, Env sample_mem (Ready []), Conv, Star]
      (OpKindWrapper_init [] 0) (sample_world Uninit)"
    by (rule conjunct2[OF conjunct2])
  then show ?thesis unfolding m .
qed

section \<open>The name\<close>

text \<open>
  C9: no operation on a handle changes its name field: not \<open>get\<close>, not the dereference,
  not the conversion, and so no sequence of them. A constructed handle keeps the pointer
  it was constructed with.
\<close>

theorem name_never_changes:
  "name_fld (fst (snd (get G h w))) = name_fld h
   \<and> name_fld (fst (snd (operator_star G h w))) = name_fld h
   \<and> name_fld (fst (snd (operator_OpKind G h w))) = name_fld h
   \<and> name_fld (fst (snd (run G as h w))) = name_fld h
   \<and> name_fld (fst (snd (run G as (fst (construct k0 p w0)) w))) = p"
proof -
  have g: "name_fld (fst (snd (get G h w))) = name_fld h"
    by (cases rule: get_cases[of h G w]) simp_all
  have "name_fld (fst (snd (run G as (fst (construct k0 p w0)) w))) = p"
    by (simp add: run_name construct_def OpKindWrapper_init_def)
  with g show ?thesis by (simp add: operator_star_def operator_OpKind_def run_name)
qed

text \<open>C9 on the sample client: the handle made for address 0 still points to address 0.\<close>

theorem name_never_changes_witness:
  "name_fld (fst (snd (run sample_Get sample_client
      (fst (construct [] 0 (sample_world Uninit))) (sample_world Uninit)))) = 0"
  using name_never_changes[of sample_Get "OpKindWrapper_init [] 0" "sample_world Uninit"
      sample_client "[]" 0 "sample_world Uninit"]
  by simp

text \<open>
  C10: the constructor stores the pointer it is given and changes nothing else: memory,
  registry and trace are as before. The object it makes depends on the pointer alone and
  not on the characters found there, so no copy of them is kept: the first call of
  \<open>get\<close> looks up what the memory of that moment holds at the pointer.
\<close>

theorem constructor_stores_pointer:
  "name_fld (fst (construct k0 p w)) = p
   \<and> snd (construct k0 p w) = w
   \<and> fst (construct k0 p w) = fst (construct k0 p w2)
   \<and> lookups (trace (snd (snd (get G (fst (construct k0 p w)) w2))))
       = lookups (trace w2) @ [mem w2 p]"
proof -
  have "once_fld (fst (construct k0 p w)) = Fresh" "name_fld (fst (construct k0 p w)) = p"
    by (simp_all add: construct_def OpKindWrapper_init_def)
  from get_Fresh_lookups[OF this(1), of G w2] this(2)
  show ?thesis by (simp add: construct_def)
qed

text \<open>
  C10 on a concrete memory: the handle is made while address 0 holds one name; by the time
  of the first call the memory there holds another, and that one is looked up.
\<close>

theorem constructor_stores_pointer_witness:
  "name_fld (fst (construct [] 0 (sample_world (Ready [])))) = 0
   \<and> lookups (trace (snd (snd (get sample_Get (fst (construct [] 0 (sample_world (Ready []))))
        ((sample_world (Ready []))\<lparr>mem := (\<lambda>a. ''lazy_tensors::nms'')\<rparr>)))))
      = [''lazy_tensors::nms'']"
proof -
  let ?w = "sample_world (Ready [])"
  let ?w2 = "?w\<lparr>mem := (\<lambda>a. ''lazy_tensors::nms'')\<rparr>"
  note c = constructor_stores_pointer[of "[]" 0 ?w ?w2 sample_Get]
  from c have 1: "name_fld (fst (construct [] 0 ?w)) = 0"
    by (rule conjunct1)
  from c have 2: "lookups (trace (snd (snd (get sample_Get (fst (construct [] 0 ?w)) ?w2))))
       = lookups (trace ?w2) @ [mem ?w2 0]"
    by (rule conjunct2[OF conjunct2[OF conjunct2]])
  have 3: "lookups (trace ?w2) @ [mem ?w2 0] = [''lazy_tensors::nms'']"
    by (simp add: sample_world_def)
  from 1 2[unfolded 3] show ?thesis by (rule conjI)
qed

end
